theory Spec2Isabelle
  imports Main "HOL-Library.Char_ord" "HOL-Library.List_Lexorder"
begin

section \<open>Data model of cmDependsCompiler\<close>

text \<open>
  Undefined behaviour of the C++ source is an error value of the model:
  \<open>FrontOfEmpty\<close> is \<open>front()\<close> called on an empty vector, \<open>PastTheEnd\<close> is an
  iterator of the compile-record vector dereferenced at, or advanced beyond, \<open>end()\<close>.
\<close>

datatype error = FrontOfEmpty | PastTheEnd

text \<open>
  \<open>cmDepends::DependencyMap\<close> is \<open>std::map<std::string, std::vector<std::string>>\<close>:
  an association list kept strictly ascending in its keys, the order in which
  \<open>std::map\<close> iterates. \<open>std::string\<close> compares bytes lexicographically, which is the
  order of \<open>char list\<close> here.
\<close>

type_synonym DependencyMap = "(string \<times> string list) list"

abbreviation dm_find :: "DependencyMap \<Rightarrow> string \<Rightarrow> string list option" where
  "dm_find m k \<equiv> map_of m k"

text \<open>\<open>m[k] = v\<close>: overwrite the entry of \<open>k\<close>, or insert it at its place in key order.\<close>

fun dm_assign :: "string \<Rightarrow> string list \<Rightarrow> DependencyMap \<Rightarrow> DependencyMap" where
  "dm_assign k v [] = [(k, v)]"
| "dm_assign k v ((k', v') # m) =
     (if k = k' then (k, v) # m
      else if k < k' then (k, v) # (k', v') # m
      else (k', v') # dm_assign k v m)"

text \<open>\<open>&m[k]\<close>: the entry of \<open>k\<close>, created empty when the key is new.\<close>

definition dm_index :: "string \<Rightarrow> DependencyMap \<Rightarrow> DependencyMap" where
  "dm_index k m = (case dm_find m k of None \<Rightarrow> dm_assign k [] m | Some _ \<Rightarrow> m)"

text \<open>\<open>currentDependencies->emplace_back(d)\<close>, the pointer being the entry of key \<open>k\<close>.\<close>

definition dm_emplace_back :: "string \<Rightarrow> string \<Rightarrow> DependencyMap \<Rightarrow> DependencyMap" where
  "dm_emplace_back k d m =
     dm_assign k ((case dm_find m k of None \<Rightarrow> [] | Some ds \<Rightarrow> ds) @ [d]) m"

definition dm_ordered :: "DependencyMap \<Rightarrow> bool" where
  "dm_ordered m = sorted_wrt (<) (map fst m)"

text \<open>
  One entry of the result of the gcc depfile tokenizer (\<open>cmGccDepfileEntry\<close>), and the
  collaborators that the file reaches through \<open>cmSystemTools\<close>, \<open>cmFileTime\<close>,
  \<open>cmsys::ifstream\<close> and \<open>cmReadGccDepfile\<close>. None of them is implemented in this
  file, so they are parameters:
  \<^item> \<open>FileExists p\<close>: \<open>cmSystemTools::FileExists\<close>;
  \<^item> \<open>FileTime p\<close>: the time that \<open>cmFileTime::Load\<close> stores for the file;
  \<^item> \<open>ifstream p\<close>: the content of the file when the stream opens, \<open>None\<close> when it does not;
  \<^item> \<open>GetLinesFromStream c\<close>: the lines that the loop over
    \<open>cmSystemTools::GetLineFromStream\<close> delivers on a stream of content \<open>c\<close>;
  \<^item> \<open>cmReadGccDepfile p\<close>: the tokenizer, \<open>None\<close> when it fails.
\<close>

record cmGccDepfileEntry =
  rules :: "string list"
  paths :: "string list"

type_synonym cmGccDepfile = "cmGccDepfileEntry list"

record filesystem =
  FileExists :: "string \<Rightarrow> bool"
  FileTime :: "string \<Rightarrow> int"
  ifstream :: "string \<Rightarrow> string option"
  GetLinesFromStream :: "string \<Rightarrow> string list"
  cmReadGccDepfile :: "string \<Rightarrow> cmGccDepfile option"

text \<open>
  Modelled from the spec: \<open>cmFileTime::Newer\<close> is declared in \<open>cmFileTime.h\<close>, which is
  not part of this file. The specification makes the timestamps totally ordered
  markers with a newer-than relation; they are integers here, and newer is greater.
\<close>

definition Newer :: "int \<Rightarrow> int \<Rightarrow> bool" where
  "Newer t t' = (t > t')"

section \<open>CheckDependencies: reading the internal dependency file\<close>

text \<open>
  The lines that \<open>while (std::getline(fin, line))\<close> delivers: the text up to each
  newline, and a last line without newline when it is not empty.
\<close>

fun getlines :: "string \<Rightarrow> string \<Rightarrow> string list" where
  "getlines acc [] = (if acc = [] then [] else [acc])"
| "getlines acc (c # cs) =
     (if c = CHR 0x0A then acc # getlines [] cs else getlines (acc @ [c]) cs)"

text \<open>
  The body of the reading loop (source lines 48 to 67). The state is the depender
  whose list \<open>currentDependencies\<close> points to (\<open>None\<close> for \<open>nullptr\<close>) and the map.
\<close>

definition read_line ::
  "string option \<times> DependencyMap \<Rightarrow> string \<Rightarrow> string option \<times> DependencyMap" where
  "read_line s line =
     (if line = [] \<or> hd line = CHR ''#'' then s
      else
        let line' = (if last line = CHR 0x0D then butlast line else line) in
        if line' = [] then s
        else if hd line' \<noteq> CHR '' '' then (Some line', dm_index line' (snd s))
        else (case fst s of
                None \<Rightarrow> s
              | Some depender \<Rightarrow> (fst s, dm_emplace_back depender (tl line') (snd s))))"

definition read_internal :: "string \<Rightarrow> DependencyMap \<Rightarrow> DependencyMap" where
  "read_internal content dependencies =
     snd (foldl read_line (None, dependencies) (getlines [] content))"

text \<open>
  Source lines 32 to 71: the result is \<open>forceReadDeps\<close>, \<open>internalDepFileTime\<close> and
  the map after reading. A \<open>cmFileTime\<close> that was never loaded is 0 here; the source
  compares no time before it is loaded (\<open>forceReadDeps\<close> is tested first).
\<close>

definition load_internal ::
  "filesystem \<Rightarrow> string \<Rightarrow> DependencyMap \<Rightarrow> bool \<times> int \<times> DependencyMap" where
  "load_internal fs internalDepFile dependencies =
     (if FileExists fs internalDepFile then
        (False, FileTime fs internalDepFile,
         (case ifstream fs internalDepFile of
            None \<Rightarrow> dependencies
          | Some content \<Rightarrow> read_internal content dependencies))
      else (True, 0, dependencies))"

section \<open>CheckDependencies: the compile records\<close>

text \<open>
  The state of the loop over the records: the status to return, the \<open>depFileTime\<close>
  object that the loop reuses, the map \<open>dependencies\<close>, and what was printed with
  \<open>cmSystemTools::Stdout\<close>.
\<close>

record ck_state =
  status :: bool
  depFileTime :: int
  depmap :: DependencyMap
  printed :: "string list"

definition newer_message :: "string \<Rightarrow> string \<Rightarrow> string" where
  "newer_message depFile internalDepFile =
     ''Dependencies file '' @ [CHR 0x22] @ depFile @ [CHR 0x22] @
     '' is newer than depends file '' @ [CHR 0x22] @ internalDepFile @ [CHR 0x22] @
     ''.'' @ [CHR 0x0A]"

text \<open>
  Source lines 97 to 142: the list \<open>depends\<close> as it stands before the filtering of
  line 144. \<open>Inr None\<close> is a \<open>continue\<close>; \<open>isValidPath\<close> is \<open>None\<close> for an empty
  \<open>std::function\<close>.
\<close>

definition parse_depends ::
  "filesystem \<Rightarrow> (string \<Rightarrow> bool) option \<Rightarrow> string \<Rightarrow> string \<Rightarrow> string \<Rightarrow> string
     \<Rightarrow> error + string list option" where
  "parse_depends fs isValidPath source target format depFile =
     (if format = ''msvc'' then
        (case ifstream fs depFile of
           None \<Rightarrow> Inr None
         | Some content \<Rightarrow>
             Inr (Some ((if isValidPath = None then [source] else [])
                        @ GetLinesFromStream fs content)))
      else
        (case cmReadGccDepfile fs depFile of
           None \<Rightarrow> Inr None
         | Some deps \<Rightarrow>
             (case deps of
                [] \<Rightarrow> Inl FrontOfEmpty
              | entry # _ \<Rightarrow>
                  let depends = paths entry in
                  if depends = [] then Inr None
                  else
                    let depends = (if hd depends = target then tl depends else depends) in
                    (case depends of
                       [] \<Rightarrow> Inl FrontOfEmpty
                     | front # rest \<Rightarrow>
                         if front \<noteq> source then
                           let depends = removeAll source depends in
                           Inr (Some (if isValidPath = None then source # depends
                                      else depends))
                         else if isValidPath \<noteq> None then Inr (Some rest)
                         else Inr (Some depends)))))"

text \<open>Source lines 144 to 148: \<open>cm::erase_if\<close> drops the paths the predicate holds for.\<close>

definition filter_valid :: "(string \<Rightarrow> bool) option \<Rightarrow> string \<Rightarrow> string list \<Rightarrow> string list" where
  "filter_valid isValidPath source depends =
     (case isValidPath of
        None \<Rightarrow> depends
      | Some p \<Rightarrow> source # filter (\<lambda>d. \<not> p d) depends)"

text \<open>Source lines 90 to 150, the body of the staleness test.\<close>

definition reparse_record ::
  "filesystem \<Rightarrow> bool \<Rightarrow> (string \<Rightarrow> bool) option \<Rightarrow> string \<Rightarrow> ck_state
     \<Rightarrow> string \<Rightarrow> string \<Rightarrow> string \<Rightarrow> string \<Rightarrow> error + ck_state" where
  "reparse_record fs Verbose isValidPath internalDepFile st source target format depFile =
     (let st = st\<lparr>status := False,
                  printed := printed st @
                    (if Verbose then [newer_message depFile internalDepFile] else [])\<rparr>
      in case parse_depends fs isValidPath source target format depFile of
           Inl e \<Rightarrow> Inl e
         | Inr None \<Rightarrow> Inr st
         | Inr (Some depends) \<Rightarrow>
             Inr (st\<lparr>depmap :=
                       dm_assign target (filter_valid isValidPath source depends)
                         (depmap st)\<rparr>))"

text \<open>Source lines 82 to 151, the body of the loop for one record.\<close>

definition check_record ::
  "filesystem \<Rightarrow> bool \<Rightarrow> (string \<Rightarrow> bool) option \<Rightarrow> string \<Rightarrow> bool \<Rightarrow> int \<Rightarrow> ck_state
     \<Rightarrow> string \<Rightarrow> string \<Rightarrow> string \<Rightarrow> string \<Rightarrow> error + ck_state" where
  "check_record fs Verbose isValidPath internalDepFile forceReadDeps internalDepFileTime st
       source target format depFile =
     (if \<not> FileExists fs depFile then Inr st
      else
        let st = (if \<not> forceReadDeps then st\<lparr>depFileTime := FileTime fs depFile\<rparr> else st) in
        if forceReadDeps \<or> Newer (depFileTime st) internalDepFileTime then
          reparse_record fs Verbose isValidPath internalDepFile st source target format depFile
        else Inr st)"

text \<open>
  The loop of source lines 76 to 152 over the flat vector: four entries a record. A
  vector that ends inside a record makes one of the three \<open>*dep++\<close>, or \<open>*dep\<close>, act on
  \<open>end()\<close>.
\<close>

fun check_records ::
  "filesystem \<Rightarrow> bool \<Rightarrow> (string \<Rightarrow> bool) option \<Rightarrow> string \<Rightarrow> bool \<Rightarrow> int \<Rightarrow> ck_state
     \<Rightarrow> string list \<Rightarrow> error + ck_state" where
  "check_records fs Verbose isValidPath internalDepFile forceReadDeps internalDepFileTime st [] =
     Inr st"
| "check_records fs Verbose isValidPath internalDepFile forceReadDeps internalDepFileTime st
       (source # target # format # depFile # depFiles) =
     (case check_record fs Verbose isValidPath internalDepFile forceReadDeps
             internalDepFileTime st source target format depFile of
        Inl e \<Rightarrow> Inl e
      | Inr st' \<Rightarrow>
          check_records fs Verbose isValidPath internalDepFile forceReadDeps
            internalDepFileTime st' depFiles)"
| "check_records fs Verbose isValidPath internalDepFile forceReadDeps internalDepFileTime st
       depFiles = Inl PastTheEnd"

text \<open>
  \<open>cmDependsCompiler::CheckDependencies\<close>: the returned status, the map passed by
  reference as it is on return, and the text printed.
\<close>

definition CheckDependencies ::
  "filesystem \<Rightarrow> bool \<Rightarrow> string \<Rightarrow> string list \<Rightarrow> DependencyMap \<Rightarrow> (string \<Rightarrow> bool) option
     \<Rightarrow> error + bool \<times> DependencyMap \<times> string list" where
  "CheckDependencies fs Verbose internalDepFile depFiles dependencies isValidPath =
     (case load_internal fs internalDepFile dependencies of
        (forceReadDeps, internalDepFileTime, dependencies') \<Rightarrow>
          (case check_records fs Verbose isValidPath internalDepFile forceReadDeps
                  internalDepFileTime
                  \<lparr>status = True, depFileTime = 0, depmap = dependencies',
                   printed = []\<rparr> depFiles of
             Inl e \<Rightarrow> Inl e
           | Inr st \<Rightarrow> Inr (status st, depmap st, printed st)))"

section \<open>WriteDependencies and ClearDependencies\<close>

text \<open>
  What \<open>WriteDependencies\<close> reads from the generators: \<open>LineContinueDirective\<close> of the
  global generator, and the binary directory and the two path conversions of the local
  one.
\<close>

record generator =
  LineContinueDirective :: string
  BinaryDirectory :: string
  ConvertToMakefilePath :: "string \<Rightarrow> string"
  MaybeConvertToRelativePath :: "string \<Rightarrow> string \<Rightarrow> string"

definition endl :: string where
  "endl = [CHR 0x0A]"

text \<open>The lambda of source lines 174 to 177.\<close>

definition convert_dep :: "generator \<Rightarrow> string \<Rightarrow> string" where
  "convert_dep g dep =
     ConvertToMakefilePath g (MaybeConvertToRelativePath g (BinaryDirectory g) dep)"

text \<open>
  Source lines 179 to 188 for one node whose converted list is \<open>front # deps\<close>: the
  text written to \<open>makeDepends\<close>.
\<close>

definition rule_block :: "generator \<Rightarrow> string \<Rightarrow> string \<Rightarrow> string list \<Rightarrow> string" where
  "rule_block g target front deps =
     ConvertToMakefilePath g target @ '': '' @ front @
     concat (map (\<lambda>dep. '' '' @ LineContinueDirective g @ ''  '' @ dep) deps) @
     endl @ endl"

text \<open>
  \<open>phonyTargets\<close> is an \<open>std::unordered_set\<close>: \<open>emplace\<close> adds a path that is not yet a
  member. The set is kept as the list of its members in the order of their insertion;
  the order in which the set is iterated is a parameter of \<open>WriteDependencies\<close>.
\<close>

definition emplace :: "string \<Rightarrow> string list \<Rightarrow> string list" where
  "emplace dep phonyTargets = (if dep \<in> set phonyTargets then phonyTargets else phonyTargets @ [dep])"

text \<open>The loop of source lines 170 to 189, on the stream and the phony set.\<close>

fun write_rules ::
  "generator \<Rightarrow> DependencyMap \<Rightarrow> string \<times> string list \<Rightarrow> error + string \<times> string list" where
  "write_rules g [] s = Inr s"
| "write_rules g ((target, deps) # nodes) (makeDepends, phonyTargets) =
     (case map (convert_dep g) deps of
        [] \<Rightarrow> Inl FrontOfEmpty
      | front # deps' \<Rightarrow>
          write_rules g nodes
            (makeDepends @ rule_block g target front deps',
             foldl (\<lambda>ph dep. emplace dep ph) phonyTargets deps'))"

definition phony_rule :: "string \<Rightarrow> string" where
  "phony_rule target = endl @ target @ '':'' @ endl"

text \<open>Source lines 197 to 203.\<close>

definition write_internal :: "DependencyMap \<Rightarrow> string" where
  "write_internal dependencies =
     concat (map (\<lambda>(depender, deps).
                    depender @ endl @ concat (map (\<lambda>dep. '' '' @ dep @ endl) deps) @ endl)
                 dependencies)"

text \<open>
  \<open>cmDependsCompiler::WriteDependencies\<close>: the texts written to \<open>makeDepends\<close> and to
  \<open>internalDepends\<close>. \<open>iterate\<close> is the order in which the unordered set hands out its
  members.
\<close>

definition WriteDependencies ::
  "generator \<Rightarrow> (string list \<Rightarrow> string list) \<Rightarrow> DependencyMap \<Rightarrow> error + string \<times> string" where
  "WriteDependencies g iterate dependencies =
     (case write_rules g dependencies ([], []) of
        Inl e \<Rightarrow> Inl e
      | Inr (makeDepends, phonyTargets) \<Rightarrow>
          Inr (makeDepends @ concat (map phony_rule (iterate phonyTargets)),
               write_internal dependencies))"

text \<open>
  \<open>cmDependsCompiler::ClearDependencies\<close>: the paths handed to
  \<open>cmSystemTools::RemoveFile\<close>, in order. \<open>dep += 3\<close> needs three more entries and
  \<open>*dep\<close> a fourth.
\<close>

fun ClearDependencies :: "string list \<Rightarrow> error + string list" where
  "ClearDependencies [] = Inr []"
| "ClearDependencies (source # target # format # depFile # depFiles) =
     (case ClearDependencies depFiles of
        Inl e \<Rightarrow> Inl e
      | Inr removed \<Rightarrow> Inr (depFile # removed))"
| "ClearDependencies depFiles = Inl PastTheEnd"

section \<open>Notions used in the properties\<close>



text \<open>
  The normalisation that the specification describes for a parsed list whose first
  element is not the source: every occurrence of the source is removed, and the source
  is put back in front only when no validity predicate is supplied.
\<close>

definition source_first_spec :: "(string \<Rightarrow> bool) option \<Rightarrow> string \<Rightarrow> string list \<Rightarrow> string list" where
  "source_first_spec isValidPath source parsed =
     (let parsed = removeAll source parsed
      in if isValidPath = None then source # parsed else parsed)"

text \<open>
  The vector consists of whole records, and no record has a depfile on disk that is
  newer than time \<open>t\<close>.
\<close>

fun no_record_newer :: "filesystem \<Rightarrow> int \<Rightarrow> string list \<Rightarrow> bool" where
  "no_record_newer fs t [] = True"
| "no_record_newer fs t (source # target # format # depFile # depFiles) =
     ((FileExists fs depFile \<longrightarrow> \<not> Newer (FileTime fs depFile) t)
      \<and> no_record_newer fs t depFiles)"
| "no_record_newer fs t depFiles = False"

text \<open>
  What the internal file can hold of a string: a line has no newline and does not end
  in a carriage return, which the reader would drop; a depender line moreover is not
  empty and starts neither with \<open>#\<close> nor with a space. A map is encodable when its keys
  are depender lines and its dependencies are lines.
\<close>

definition plain_line :: "string \<Rightarrow> bool" where
  "plain_line s = (CHR 0x0A \<notin> set s \<and> (s = [] \<or> last s \<noteq> CHR 0x0D))"

definition depender_line :: "string \<Rightarrow> bool" where
  "depender_line k = (k \<noteq> [] \<and> hd k \<noteq> CHR ''#'' \<and> hd k \<noteq> CHR '' '' \<and> plain_line k)"

definition encodable :: "DependencyMap \<Rightarrow> bool" where
  "encodable m = list_all (\<lambda>(k, ds). depender_line k \<and> list_all plain_line ds) m"

text \<open>
  The lines of the internal file that \<open>write_internal\<close> writes: for each node the
  depender, its dependencies after a space, and an empty line.
\<close>

definition internal_lines :: "DependencyMap \<Rightarrow> string list" where
  "internal_lines m = concat (map (\<lambda>(k, ds). k # map (\<lambda>d. CHR '' '' # d) ds @ [[]]) m)"

text \<open>
  The rule blocks of all nodes, one after the other, and the converted paths that stand
  behind the first place of the list of some node.
\<close>

definition rule_blocks :: "generator \<Rightarrow> DependencyMap \<Rightarrow> string" where
  "rule_blocks g m =
     concat (map (\<lambda>(target, deps).
                    case map (convert_dep g) deps of
                      [] \<Rightarrow> []
                    | front # deps' \<Rightarrow> rule_block g target front deps') m)"

definition non_source_paths :: "generator \<Rightarrow> DependencyMap \<Rightarrow> string set" where
  "non_source_paths g m = (\<Union>(target, deps) \<in> set m. set (tl (map (convert_dep g) deps)))"

section \<open>Concrete inputs\<close>

text \<open>A file system without any file.\<close>

definition fs_none :: filesystem where
  "fs_none = \<lparr>FileExists = (\<lambda>p. False), FileTime = (\<lambda>p. 0), ifstream = (\<lambda>p. None),
     GetLinesFromStream = (\<lambda>c. []), cmReadGccDepfile = (\<lambda>p. None)\<rparr>"

text \<open>
  Only the depfile \<open>a.d\<close> exists; the tokenizer returns one entry for it, with the
  dependencies \<open>ps\<close>.
\<close>

definition fs_gcc :: "string list \<Rightarrow> filesystem" where
  "fs_gcc ps = \<lparr>FileExists = (\<lambda>p. p = ''a.d''), FileTime = (\<lambda>p. 0), ifstream = (\<lambda>p. None),
     GetLinesFromStream = (\<lambda>c. []),
     cmReadGccDepfile = (\<lambda>p. if p = ''a.d'' then Some [\<lparr>rules = [''a.o''], paths = ps\<rparr>] else None)\<rparr>"

text \<open>Only the depfile \<open>a.d\<close> exists; it opens and lists the lines \<open>ls\<close>.\<close>

definition fs_msvc :: "string list \<Rightarrow> filesystem" where
  "fs_msvc ls = \<lparr>FileExists = (\<lambda>p. p = ''a.d''), FileTime = (\<lambda>p. 0),
     ifstream = (\<lambda>p. if p = ''a.d'' then Some [] else None),
     GetLinesFromStream = (\<lambda>c. ls), cmReadGccDepfile = (\<lambda>p. None)\<rparr>"



text \<open>
  The depfile \<open>a.d\<close> has time 1 and the dependencies \<open>a.c b.h\<close>. The internal file has
  time 2; it exists when \<open>present\<close>, and opens with \<open>content\<close> unless that is \<open>None\<close>.
\<close>

definition fs_internal :: "bool \<Rightarrow> string option \<Rightarrow> filesystem" where
  "fs_internal present content =
     \<lparr>FileExists = (\<lambda>p. p = ''a.d'' \<or> (p = ''depend.internal'' \<and> present)),
      FileTime = (\<lambda>p. if p = ''a.d'' then 1 else 2),
      ifstream = (\<lambda>p. if p = ''depend.internal'' then content else None),
      GetLinesFromStream = (\<lambda>c. []),
      cmReadGccDepfile =
        (\<lambda>p. if p = ''a.d'' then Some [\<lparr>rules = [''a.o''], paths = [''a.c'', ''b.h'']\<rparr>] else None)\<rparr>"

text \<open>A loop state in which the status is still true and \<open>a.o\<close> has a cached list.\<close>

definition st0 :: ck_state where
  "st0 = \<lparr>status = True, depFileTime = 0, depmap = [(''a.o'', [''old.c''])], printed = []\<rparr>"

text \<open>
  A generator that leaves paths as they are and continues lines with a backslash, and
  an unordered set that hands out its members in the reverse order of their insertion.
\<close>

definition gen_plain :: generator where
  "gen_plain = \<lparr>LineContinueDirective = [CHR 0x5C, CHR 0x0A], BinaryDirectory = ''/build'',
     ConvertToMakefilePath = (\<lambda>p. p), MaybeConvertToRelativePath = (\<lambda>dir p. p)\<rparr>"

definition iterate_rev :: "string list \<Rightarrow> string list" where
  "iterate_rev phonyTargets = rev phonyTargets"

text \<open>
  Only the internal file exists; it opens with the given content.
\<close>

definition fs_written :: "string \<Rightarrow> filesystem" where
  "fs_written content = \<lparr>FileExists = (\<lambda>p. p = ''depend.internal''), FileTime = (\<lambda>p. 2),
     ifstream = (\<lambda>p. if p = ''depend.internal'' then Some content else None),
     GetLinesFromStream = (\<lambda>c. []), cmReadGccDepfile = (\<lambda>p. None)\<rparr>"

text \<open>
  A validity predicate that holds for no path, so that nothing is filtered out.
\<close>

definition keep_all :: "string \<Rightarrow> bool" where
  "keep_all p = False"

text \<open>
  The internal file exists with time 2 and does not open. The depfile \<open>b.d\<close> is newer
  (time 3), the depfile \<open>a.d\<close> is older (time 1).
\<close>

definition fs_two :: filesystem where
  "fs_two =
     \<lparr>FileExists = (\<lambda>p. p = ''a.d'' \<or> p = ''b.d'' \<or> p = ''depend.internal''),
      FileTime = (\<lambda>p. if p = ''a.d'' then 1 else if p = ''b.d'' then 3 else 2),
      ifstream = (\<lambda>p. None),
      GetLinesFromStream = (\<lambda>c. []),
      cmReadGccDepfile =
        (\<lambda>p. if p = ''a.d'' then Some [\<lparr>rules = [''a.o''], paths = [''a.c'', ''a.h'']\<rparr>]
             else if p = ''b.d'' then Some [\<lparr>rules = [''b.o''], paths = [''b.c'', ''b.h'']\<rparr>]
             else None)\<rparr>"

section \<open>The stride of the compile-record vector\<close>

declare Newer_def [simp]


lemma dvd4_Suc4: "4 dvd Suc (Suc (Suc (Suc n))) \<longleftrightarrow> 4 dvd n"
  by presburger

lemma not_dvd4_small:
  "\<not> 4 dvd Suc 0" "\<not> 4 dvd Suc (Suc 0)" "\<not> 4 dvd Suc (Suc (Suc 0))"
  by presburger+

lemma check_records_stride:
  "check_records fs V p idf f t st depFiles = Inr st' \<Longrightarrow> 4 dvd length depFiles"
proof (induction fs V p idf f t st depFiles arbitrary: st' rule: check_records.induct)
  case (2 fs V p idf f t st source target format depFile depFiles)
  then show ?case by (auto split: sum.splits simp: dvd4_Suc4)
qed simp_all

lemma ClearDependencies_stride:
  "ClearDependencies depFiles = Inl PastTheEnd \<longleftrightarrow> \<not> 4 dvd length depFiles"
  by (induction depFiles rule: ClearDependencies.induct)
     (auto split: sum.splits simp: dvd4_Suc4 not_dvd4_small)

lemma ClearDependencies_error: "ClearDependencies depFiles = Inl e \<Longrightarrow> e = PastTheEnd"
  by (induction depFiles arbitrary: e rule: ClearDependencies.induct)
     (auto split: sum.splits)

text \<open>
  Claim C10. \<open>CheckDependencies\<close> and \<open>ClearDependencies\<close> step through the flat
  vector four entries at a time. When its length is not a multiple of 4,
  \<open>CheckDependencies\<close> ends in undefined behaviour and \<open>ClearDependencies\<close> moves its
  iterator beyond the end; when it is a multiple of 4, \<open>ClearDependencies\<close> is defined.
  So both are defined only for a length that is a multiple of 4.
\<close>

theorem record_stride:
  "(\<not> 4 dvd length depFiles \<longrightarrow>
      (\<exists>e. CheckDependencies fs Verbose internalDepFile depFiles dependencies isValidPath = Inl e)
      \<and> ClearDependencies depFiles = Inl PastTheEnd)
   \<and> (4 dvd length depFiles \<longrightarrow> (\<exists>removed. ClearDependencies depFiles = Inr removed))"
proof (intro conjI impI)
  assume n: "\<not> 4 dvd length depFiles"
  show "\<exists>e. CheckDependencies fs Verbose internalDepFile depFiles dependencies isValidPath = Inl e"
    using n check_records_stride
    by (auto simp: CheckDependencies_def split: prod.splits sum.splits)
  show "ClearDependencies depFiles = Inl PastTheEnd"
    using n by (simp add: ClearDependencies_stride)
next
  assume d: "4 dvd length depFiles"
  then have "ClearDependencies depFiles \<noteq> Inl PastTheEnd"
    by (simp add: ClearDependencies_stride)
  then show "\<exists>removed. ClearDependencies depFiles = Inr removed"
    using ClearDependencies_error by (cases "ClearDependencies depFiles") auto
qed

theorem record_stride_witness:
  "\<not> 4 dvd length [''a.c'', ''a.o'', ''gcc'']
   \<and> (\<exists>e. CheckDependencies fs_none False ''depend.internal'' [''a.c'', ''a.o'', ''gcc''] [] None
          = Inl e)
   \<and> ClearDependencies [''a.c'', ''a.o'', ''gcc''] = Inl PastTheEnd
   \<and> 4 dvd length [''a.c'', ''a.o'', ''gcc'', ''a.d'']
   \<and> (\<exists>removed. ClearDependencies [''a.c'', ''a.o'', ''gcc'', ''a.d''] = Inr removed)"
  using record_stride [of "[''a.c'', ''a.o'', ''gcc'']" fs_none False "''depend.internal''" "[]" None]
    record_stride [of "[''a.c'', ''a.o'', ''gcc'', ''a.d'']" fs_none False "''depend.internal''" "[]"
      None]
  by simp

section \<open>One record of the vector\<close>

text \<open>
  The loop handles a vector of whole records one after the other: what
  \<open>CheckDependencies\<close> returns for a vector extended by one record is what it returns
  for the vector itself, changed by that record alone.
\<close>

lemma check_records_append:
  "4 dvd length pre \<Longrightarrow>
     check_records fs V p idf f t st (pre @ post)
       = (case check_records fs V p idf f t st pre of
            Inl e \<Rightarrow> Inl e
          | Inr st' \<Rightarrow> check_records fs V p idf f t st' post)"
proof (induction fs V p idf f t st pre rule: check_records.induct)
  case (1 fs V p idf f t st)
  show ?case by simp
next
  case (2 fs V p idf f t st source target format depFile depFiles)
  then show ?case by (auto split: sum.splits simp: dvd4_Suc4)
qed (simp_all add: not_dvd4_small)

lemma check_records_one:
  "check_records fs V p idf f t st [source, target, format, depFile]
     = check_record fs V p idf f t st source target format depFile"
  by (cases "check_record fs V p idf f t st source target format depFile") simp_all

lemma load_internal_force:
  "load_internal fs idf deps = (f, t, loaded) \<Longrightarrow>
     f = (\<not> FileExists fs idf) \<and> (FileExists fs idf \<longrightarrow> t = FileTime fs idf)"
  by (auto simp: load_internal_def split: if_splits)




lemma CheckDependencies_after:
  assumes "CheckDependencies fs V idf pre deps p = Inr (status0, m, out)"
  shows "\<exists>f t loaded st.
           load_internal fs idf deps = (f, t, loaded)
           \<and> status st = status0 \<and> depmap st = m \<and> printed st = out
           \<and> (\<forall>post. CheckDependencies fs V idf (pre @ post) deps p
                  = (case check_records fs V p idf f t st post of
                       Inl e \<Rightarrow> Inl e
                     | Inr st' \<Rightarrow> Inr (status st', depmap st', printed st')))"
proof -
  obtain f t loaded where L: "load_internal fs idf deps = (f, t, loaded)"
    by (cases "load_internal fs idf deps") auto
  let ?st0 = "\<lparr>status = True, depFileTime = 0, depmap = loaded, printed = []\<rparr>"
  from assms L obtain st where run: "check_records fs V p idf f t ?st0 pre = Inr st"
    and proj: "status st = status0" "depmap st = m" "printed st = out"
    by (cases "check_records fs V p idf f t ?st0 pre") (simp_all add: CheckDependencies_def)
  from check_records_stride [OF run] have "4 dvd length pre" .
  from check_records_append [OF this, of fs V p idf f t ?st0] run
  have "check_records fs V p idf f t ?st0 (pre @ post) = check_records fs V p idf f t st post"
    for post by simp
  then have "\<forall>post. CheckDependencies fs V idf (pre @ post) deps p
        = (case check_records fs V p idf f t st post of
             Inl e \<Rightarrow> Inl e
           | Inr st' \<Rightarrow> Inr (status st', depmap st', printed st'))"
    using L by (simp add: CheckDependencies_def)
  with L proj show ?thesis by blast
qed

lemma check_record_fresh:
  assumes "\<not> (FileExists fs depFile \<and> (f \<or> Newer (FileTime fs depFile) t))"
  shows "\<exists>st'. check_record fs V p idf f t st source target format depFile = Inr st'
          \<and> status st' = status st \<and> depmap st' = depmap st \<and> printed st' = printed st"
  using assms by (cases "FileExists fs depFile") (auto simp: check_record_def Let_def)

lemma check_record_stale:
  assumes "FileExists fs depFile" and "f \<or> Newer (FileTime fs depFile) t"
  shows "(case check_record fs V p idf f t st source target format depFile of
            Inl e \<Rightarrow> Inl e
          | Inr st' \<Rightarrow> Inr (status st', depmap st', printed st'))
         = (case parse_depends fs p source target format depFile of
              Inl e \<Rightarrow> Inl e
            | Inr None \<Rightarrow>
                Inr (False, depmap st,
                     printed st @ (if V then [newer_message depFile idf] else []))
            | Inr (Some depends) \<Rightarrow>
                Inr (False, dm_assign target (filter_valid p source depends) (depmap st),
                     printed st @ (if V then [newer_message depFile idf] else [])))"
proof -
  let ?st = "if f then st else st\<lparr>depFileTime := FileTime fs depFile\<rparr>"
  from assms
  have "check_record fs V p idf f t st source target format depFile
          = reparse_record fs V p idf ?st source target format depFile"
    by (auto simp: check_record_def Let_def)
  then show ?thesis
    by (cases "parse_depends fs p source target format depFile")
       (auto simp: reparse_record_def Let_def split: option.splits)
qed

lemma CheckDependencies_snoc:
  assumes "CheckDependencies fs V idf pre deps p = Inr (status0, m, out)"
  shows "CheckDependencies fs V idf (pre @ [source, target, format, depFile]) deps p
     = (if FileExists fs depFile
           \<and> (\<not> FileExists fs idf \<or> Newer (FileTime fs depFile) (FileTime fs idf))
        then (case parse_depends fs p source target format depFile of
                Inl e \<Rightarrow> Inl e
              | Inr None \<Rightarrow>
                  Inr (False, m, out @ (if V then [newer_message depFile idf] else []))
              | Inr (Some depends) \<Rightarrow>
                  Inr (False, dm_assign target (filter_valid p source depends) m,
                       out @ (if V then [newer_message depFile idf] else [])))
        else Inr (status0, m, out))"
proof -
  from CheckDependencies_after [OF assms] obtain f t loaded st where
    L: "load_internal fs idf deps = (f, t, loaded)"
    and proj: "status st = status0" "depmap st = m" "printed st = out"
    and ext: "\<And>post. CheckDependencies fs V idf (pre @ post) deps p
        = (case check_records fs V p idf f t st post of
             Inl e \<Rightarrow> Inl e
           | Inr st' \<Rightarrow> Inr (status st', depmap st', printed st'))"
    by blast
  from load_internal_force [OF L]
  have f: "f = (\<not> FileExists fs idf)" and t: "FileExists fs idf \<longrightarrow> t = FileTime fs idf"
    by simp_all
  let ?stale = "FileExists fs depFile \<and> (f \<or> Newer (FileTime fs depFile) t)"
  have stale: "?stale \<longleftrightarrow> FileExists fs depFile
           \<and> (\<not> FileExists fs idf \<or> Newer (FileTime fs depFile) (FileTime fs idf))"
    using f t by auto
  have run: "CheckDependencies fs V idf (pre @ [source, target, format, depFile]) deps p
        = (case check_record fs V p idf f t st source target format depFile of
             Inl e \<Rightarrow> Inl e
           | Inr st' \<Rightarrow> Inr (status st', depmap st', printed st'))"
    unfolding ext check_records_one ..
  show ?thesis
  proof (cases ?stale)
    case True
    then have "FileExists fs depFile" "f \<or> Newer (FileTime fs depFile) t" by simp_all
    from proj True check_record_stale [OF this, of V p idf st source target format]
    show ?thesis unfolding run stale [symmetric] by (simp split: sum.splits option.splits)
  next
    case False
    from proj False check_record_fresh [OF False, of V p idf st source target format]
    show ?thesis unfolding run stale [symmetric] by auto
  qed
qed


section \<open>The staleness test\<close>



section \<open>Records that are skipped\<close>




section \<open>The source comes first\<close>







section \<open>Normalisation of the parsed list\<close>

text \<open>
  Claim C3, as stated, fails for the flat listing when a validity predicate is
  supplied: the listing \<open>b.h a.c\<close> of the source \<open>a.c\<close> does not start with the source,
  and the list before filtering still is \<open>b.h a.c\<close>, where the normalisation of the
  claim gives \<open>b.h\<close>. With a predicate that holds for no path, the list stored is
  \<open>a.c b.h a.c\<close>.
\<close>

theorem flat_listing_counterexample:
  "parse_depends (fs_msvc [''b.h'', ''a.c'']) (Some keep_all) ''a.c'' ''a.o'' ''msvc'' ''a.d''
     = Inr (Some [''b.h'', ''a.c''])
   \<and> hd [''b.h'', ''a.c''] \<noteq> ''a.c''
   \<and> source_first_spec (Some keep_all) ''a.c'' [''b.h'', ''a.c''] = [''b.h'']
   \<and> CheckDependencies (fs_msvc [''b.h'', ''a.c'']) False ''depend.internal''
         [''a.c'', ''a.o'', ''msvc'', ''a.d''] [] (Some keep_all)
       = Inr (False, [(''a.o'', [''a.c'', ''b.h'', ''a.c''])], [])"
  by (simp add: parse_depends_def fs_msvc_def source_first_spec_def CheckDependencies_def
      load_internal_def check_record_def reparse_record_def filter_valid_def keep_all_def
      Let_def)

text \<open>
  Claim C3, amended. The normalisation is that of the gcc format only: when the list
  that is left after the removal of a leading target is not empty and does not start
  with the source, every occurrence of the source is removed, and the source is put in
  front when no predicate is supplied. A flat listing is not searched for the source:
  the source is put in front of its lines when no predicate is supplied, and the lines
  are taken as they are otherwise.
\<close>

theorem source_first_normalization:
  "(format \<noteq> ''msvc'' \<and> cmReadGccDepfile fs depFile = Some (entry # es) \<and> paths entry \<noteq> []
      \<and> parsed = (if hd (paths entry) = target then tl (paths entry) else paths entry)
      \<and> parsed \<noteq> [] \<and> hd parsed \<noteq> source
     \<longrightarrow> parse_depends fs isValidPath source target format depFile
           = Inr (Some (source_first_spec isValidPath source parsed)))
   \<and> (format = ''msvc'' \<and> ifstream fs depFile = Some content
     \<longrightarrow> parse_depends fs isValidPath source target format depFile
           = Inr (Some ((if isValidPath = None then [source] else [])
                        @ GetLinesFromStream fs content)))"
  by (auto simp: parse_depends_def source_first_spec_def Let_def split: list.splits)

theorem source_first_normalization_witness:
  "parse_depends (fs_gcc [''a.o'', ''b.h'', ''a.c'']) None ''a.c'' ''a.o'' ''gcc'' ''a.d''
     = Inr (Some [''a.c'', ''b.h''])
   \<and> parse_depends (fs_msvc [''b.h'', ''a.c'']) (Some (\<lambda>p. False)) ''a.c'' ''a.o'' ''msvc'' ''a.d''
     = Inr (Some [''b.h'', ''a.c''])"
  using source_first_normalization [of "''gcc''" "fs_gcc [''a.o'', ''b.h'', ''a.c'']" "''a.d''"
      "\<lparr>rules = [''a.o''], paths = [''a.o'', ''b.h'', ''a.c'']\<rparr>" "[]" "[''b.h'', ''a.c'']"
      "''a.o''" "''a.c''" None "[]"]
    source_first_normalization [of "''msvc''" "fs_msvc [''b.h'', ''a.c'']" "''a.d''"
      "\<lparr>rules = [], paths = []\<rparr>" "[]" "[]" "''a.o''" "''a.c''" "Some (\<lambda>p. False)" "[]"]
  by (simp add: fs_gcc_def fs_msvc_def source_first_spec_def)

section \<open>The front of the list after the removal of the target\<close>

lemma reparse_record_gcc:
  assumes "format \<noteq> ''msvc''" and "cmReadGccDepfile fs depFile = Some (entry # es)"
  shows "(\<exists>st'. reparse_record fs V p idf st source target format depFile = Inr st')
           \<longleftrightarrow> paths entry \<noteq> [target]"
    and "paths entry = [target]
           \<Longrightarrow> reparse_record fs V p idf st source target format depFile = Inl FrontOfEmpty"
  using assms
  by (auto simp: reparse_record_def parse_depends_def Let_def
      split: list.splits option.splits sum.splits)

text \<open>
  Claim C8, as stated, fails in its last part: the list \<open>a.o a.o\<close> of the target
  \<open>a.o\<close> holds no element other than the target (removing the target leaves nothing),
  and the record is processed without undefined behaviour.
\<close>

theorem gcc_repeated_target_counterexample:
  "check_record (fs_gcc [''a.o'', ''a.o'']) False None ''depend.internal'' True 0 st0
      ''a.c'' ''a.o'' ''gcc'' ''a.d''
     = Inr \<lparr>status = False, depFileTime = 0, depmap = [(''a.o'', [''a.c'', ''a.o''])],
            printed = []\<rparr>
   \<and> removeAll ''a.o'' [''a.o'', ''a.o''] = []"
  by (simp add: check_record_def reparse_record_def parse_depends_def filter_valid_def
      fs_gcc_def st0_def Let_def)

text \<open>
  Claim C8, amended. In the gcc branch the list is tested for emptiness before the
  leading target is removed only. When the tokenizer returns an entry whose list is
  the target alone, the removal empties the list and \<open>front()\<close> is then called on it.
  For every other list of the first entry the record is processed without undefined
  behaviour.
\<close>

theorem gcc_front_after_erase:
  assumes "FileExists fs depFile"
    and "forceReadDeps \<or> Newer (FileTime fs depFile) internalDepFileTime"
    and "format \<noteq> ''msvc''"
    and "cmReadGccDepfile fs depFile = Some (entry # es)"
  shows "(paths entry = [target] \<longrightarrow>
            check_record fs Verbose isValidPath internalDepFile forceReadDeps internalDepFileTime
              st source target format depFile = Inl FrontOfEmpty)
         \<and> (paths entry \<noteq> [target] \<longrightarrow>
            (\<exists>st'. check_record fs Verbose isValidPath internalDepFile forceReadDeps
               internalDepFileTime st source target format depFile = Inr st'))"
  using assms reparse_record_gcc [OF assms(3,4)]
  by (auto simp: check_record_def Let_def)

theorem gcc_front_after_erase_witness:
  "check_record (fs_gcc [''a.o'']) False None ''depend.internal'' True 0 st0
      ''a.c'' ''a.o'' ''gcc'' ''a.d'' = Inl FrontOfEmpty
   \<and> (\<exists>st'. check_record (fs_gcc [''a.o'', ''a.c'']) False None ''depend.internal'' True 0 st0
      ''a.c'' ''a.o'' ''gcc'' ''a.d'' = Inr st')"
  using gcc_front_after_erase [of "fs_gcc [''a.o'']" "''a.d''" True 0 "''gcc''"
      "\<lparr>rules = [''a.o''], paths = [''a.o'']\<rparr>" "[]" "''a.o''" False None "''depend.internal''"
      st0 "''a.c''"]
    gcc_front_after_erase [of "fs_gcc [''a.o'', ''a.c'']" "''a.d''" True 0 "''gcc''"
      "\<lparr>rules = [''a.o''], paths = [''a.o'', ''a.c'']\<rparr>" "[]" "''a.o''" False None
      "''depend.internal''" st0 "''a.c''"]
  by (simp add: fs_gcc_def)

section \<open>An internal file that exists\<close>

lemma check_records_fresh:
  "no_record_newer fs t depFiles \<Longrightarrow>
     \<exists>st'. check_records fs V p idf False t st depFiles = Inr st'
       \<and> status st' = status st \<and> depmap st' = depmap st \<and> printed st' = printed st"
proof (induction fs t depFiles arbitrary: st rule: no_record_newer.induct)
  case (1 fs t)
  show ?case by simp
next
  case (2 fs t source target format depFile depFiles)
  then have fresh: "FileExists fs depFile \<longrightarrow> \<not> Newer (FileTime fs depFile) t"
    and rest: "no_record_newer fs t depFiles" by simp_all
  have "\<exists>st1. check_record fs V p idf False t st source target format depFile = Inr st1
          \<and> status st1 = status st \<and> depmap st1 = depmap st \<and> printed st1 = printed st"
    using fresh by (cases "FileExists fs depFile") (simp_all add: check_record_def Let_def)
  then obtain st1 where st1: "check_record fs V p idf False t st source target format depFile = Inr st1"
    and same: "status st1 = status st" "depmap st1 = depmap st" "printed st1 = printed st"
    by blast
  from "2.IH" [OF rest, of st1] st1 same show ?case by auto
qed simp_all

text \<open>
  Claim C6, as stated, fails. An internal file that exists and cannot be opened does
  not force the reparsing: the record, whose depfile is older, is not read, the status
  is true and the map stays empty, whereas an absent internal file makes the same
  record reparsed. An internal file whose first line is a dependee is read as far as
  it makes sense and yields a map that is not empty.
\<close>

theorem unreadable_internal_counterexample:
  "CheckDependencies (fs_internal True None) False ''depend.internal''
      [''a.c'', ''a.o'', ''gcc'', ''a.d''] [] None = Inr (True, [], [])
   \<and> CheckDependencies (fs_internal True (Some ('' b.h'' @ endl @ ''x.o'' @ endl @ '' y.c'' @ endl)))
      False ''depend.internal'' [''a.c'', ''a.o'', ''gcc'', ''a.d''] [] None
      = Inr (True, [(''x.o'', [''y.c''])], [])
   \<and> CheckDependencies (fs_internal False None) False ''depend.internal''
      [''a.c'', ''a.o'', ''gcc'', ''a.d''] [] None
      = Inr (False, [(''a.o'', [''a.c'', ''b.h''])], [])"
  by (simp add: CheckDependencies_def load_internal_def fs_internal_def check_record_def
      reparse_record_def parse_depends_def filter_valid_def read_internal_def read_line_def
      dm_index_def dm_emplace_back_def endl_def Let_def)

text \<open>
  Claim C6, amended. When the internal file exists, whether or not it can be opened,
  reading it never fails and \<open>forceReadDeps\<close> is false. A vector in which no record
  has a depfile newer than the internal file makes \<open>CheckDependencies\<close> return true
  without error, with the map passed in when the file cannot be opened and with what
  its lines yield otherwise. And a record whose depfile is missing or not newer than
  the internal file is not reparsed, whatever the records before it: it leaves the
  status, the map and the output as they are.
\<close>

theorem existing_internal_file:
  assumes "FileExists fs internalDepFile"
  shows "(no_record_newer fs (FileTime fs internalDepFile) depFiles \<longrightarrow>
            CheckDependencies fs Verbose internalDepFile depFiles dependencies isValidPath
              = Inr (True,
                     (case ifstream fs internalDepFile of
                        None \<Rightarrow> dependencies
                      | Some content \<Rightarrow> read_internal content dependencies),
                     []))
         \<and> (CheckDependencies fs Verbose internalDepFile pre dependencies isValidPath
              = Inr (pstatus, pmap, pout)
            \<and> (FileExists fs depFile
                 \<longrightarrow> \<not> Newer (FileTime fs depFile) (FileTime fs internalDepFile))
            \<longrightarrow> CheckDependencies fs Verbose internalDepFile
                  (pre @ [source, target, format, depFile]) dependencies isValidPath
                = Inr (pstatus, pmap, pout))"
proof (intro conjI impI)
  assume fresh: "no_record_newer fs (FileTime fs internalDepFile) depFiles"
  from assms
    check_records_fresh [OF fresh, of Verbose isValidPath internalDepFile
      "\<lparr>status = True, depFileTime = 0,
        depmap = (case ifstream fs internalDepFile of
                    None \<Rightarrow> dependencies
                  | Some content \<Rightarrow> read_internal content dependencies),
        printed = []\<rparr>"]
  show "CheckDependencies fs Verbose internalDepFile depFiles dependencies isValidPath
          = Inr (True,
                 (case ifstream fs internalDepFile of
                    None \<Rightarrow> dependencies
                  | Some content \<Rightarrow> read_internal content dependencies),
                 [])"
    by (auto simp: CheckDependencies_def load_internal_def)
next
  assume "CheckDependencies fs Verbose internalDepFile pre dependencies isValidPath
            = Inr (pstatus, pmap, pout)
          \<and> (FileExists fs depFile
               \<longrightarrow> \<not> Newer (FileTime fs depFile) (FileTime fs internalDepFile))"
  then have run: "CheckDependencies fs Verbose internalDepFile pre dependencies isValidPath
            = Inr (pstatus, pmap, pout)"
    and older: "FileExists fs depFile
               \<longrightarrow> \<not> Newer (FileTime fs depFile) (FileTime fs internalDepFile)"
    by simp_all
  from assms older
  have "\<not> (FileExists fs depFile
           \<and> (\<not> FileExists fs internalDepFile
                \<or> Newer (FileTime fs depFile) (FileTime fs internalDepFile)))"
    by blast
  then
  show "CheckDependencies fs Verbose internalDepFile
          (pre @ [source, target, format, depFile]) dependencies isValidPath
        = Inr (pstatus, pmap, pout)"
    unfolding CheckDependencies_snoc [OF run, of source target format depFile]
    by (simp only: if_False)
qed

theorem existing_internal_file_witness:
  "CheckDependencies (fs_internal True None) False ''depend.internal''
      [''a.c'', ''a.o'', ''gcc'', ''a.d''] [] None = Inr (True, [], [])
   \<and> CheckDependencies fs_two False ''depend.internal''
      [''b.c'', ''b.o'', ''gcc'', ''b.d''] [] None
     = Inr (False, [(''b.o'', [''b.c'', ''b.h''])], [])
   \<and> CheckDependencies fs_two False ''depend.internal''
      [''b.c'', ''b.o'', ''gcc'', ''b.d'', ''a.c'', ''a.o'', ''gcc'', ''a.d''] [] None
     = Inr (False, [(''b.o'', [''b.c'', ''b.h''])], [])"
  using existing_internal_file [where fs = "fs_internal True None"
      and internalDepFile = "''depend.internal''"
      and depFiles = "[''a.c'', ''a.o'', ''gcc'', ''a.d'']" and Verbose = False
      and dependencies = "[]" and isValidPath = None and pre = "[]" and pstatus = True
      and pmap = "[]" and pout = "[]" and depFile = "''a.d''" and source = "''a.c''"
      and target = "''a.o''" and format = "''gcc''"]
    existing_internal_file [where fs = fs_two and internalDepFile = "''depend.internal''"
      and depFiles = "[]" and Verbose = False and dependencies = "[]" and isValidPath = None
      and pre = "[''b.c'', ''b.o'', ''gcc'', ''b.d'']" and pstatus = False
      and pmap = "[(''b.o'', [''b.c'', ''b.h''])]" and pout = "[]" and depFile = "''a.d''"
      and source = "''a.c''" and target = "''a.o''" and format = "''gcc''"]
  by (simp add: fs_internal_def fs_two_def CheckDependencies_def load_internal_def
      check_record_def reparse_record_def parse_depends_def filter_valid_def Let_def)

section \<open>The front of every list in WriteDependencies\<close>

lemma write_rules_defined:
  "(\<exists>r. write_rules g m s = Inr r) \<longleftrightarrow> (\<forall>deps \<in> snd ` set m. deps \<noteq> [])"
proof (induction m arbitrary: s)
  case Nil
  show ?case by simp
next
  case (Cons node m)
  obtain target deps where node: "node = (target, deps)" by (cases node)
  obtain makeDepends phonyTargets where s: "s = (makeDepends, phonyTargets)" by (cases s)
  show ?case
  proof (cases deps)
    case Nil
    then show ?thesis by (simp add: node s)
  next
    case (Cons d ds)
    then show ?thesis using Cons.IH by (simp add: node s)
  qed
qed

lemma write_rules_error: "write_rules g m s = Inl e \<Longrightarrow> e = FrontOfEmpty"
proof (induction m arbitrary: s)
  case Nil
  then show ?case by simp
next
  case (Cons node m)
  obtain target deps where node: "node = (target, deps)" by (cases node)
  obtain makeDepends phonyTargets where s: "s = (makeDepends, phonyTargets)" by (cases s)
  from Cons show ?case by (cases deps) (auto simp: node s)
qed

text \<open>
  Claim C9. \<open>WriteDependencies\<close> is defined exactly when every list of the map is
  non-empty, and a map with an empty list makes it call \<open>front()\<close> on that list. Such
  a map is what the reader of the internal file yields for a depender line followed by
  the blank separator line.
\<close>

theorem WriteDependencies_front:
  "((\<exists>r. WriteDependencies g iterate dependencies = Inr r)
      \<longleftrightarrow> (\<forall>deps \<in> snd ` set dependencies. deps \<noteq> []))
   \<and> ((\<exists>deps \<in> snd ` set dependencies. deps = [])
      \<longrightarrow> WriteDependencies g iterate dependencies = Inl FrontOfEmpty)
   \<and> read_internal (''a.o'' @ endl @ endl) [] = [(''a.o'', [])]
   \<and> WriteDependencies g iterate (read_internal (''a.o'' @ endl @ endl) []) = Inl FrontOfEmpty"
proof -
  have defined: "(\<exists>r. WriteDependencies g iterate m = Inr r) \<longleftrightarrow> (\<forall>deps \<in> snd ` set m. deps \<noteq> [])"
    for m
    using write_rules_defined [of g m "([], [])"]
    by (auto simp: WriteDependencies_def split: sum.splits)
  have err: "WriteDependencies g iterate m = Inl FrontOfEmpty" if "\<exists>deps \<in> snd ` set m. deps = []"
    for m
  proof (cases "WriteDependencies g iterate m")
    case (Inl e)
    then show ?thesis
      using write_rules_error [of g m "([], [])" e]
      by (auto simp: WriteDependencies_def split: sum.splits)
  next
    case (Inr r)
    then show ?thesis using defined [of m] that by auto
  qed
  have rd: "read_internal (''a.o'' @ endl @ endl) [] = [(''a.o'', [])]"
    by (simp add: read_internal_def read_line_def endl_def dm_index_def Let_def)
  show ?thesis using defined [of dependencies] err [of dependencies] err [of "[(''a.o'', [])]"] rd
    by simp
qed

theorem WriteDependencies_front_witness:
  "(\<exists>r. WriteDependencies gen_plain iterate_rev [(''a.o'', [''a.c''])] = Inr r)
   \<and> WriteDependencies gen_plain iterate_rev [(''a.o'', [''a.c'']), (''b.o'', [])]
       = Inl FrontOfEmpty"
  using WriteDependencies_front [of gen_plain iterate_rev "[(''a.o'', [''a.c''])]"]
    WriteDependencies_front [of gen_plain iterate_rev "[(''a.o'', [''a.c'']), (''b.o'', [])]"]
  by simp

section \<open>Writing the internal file and reading it back\<close>

lemma getlines_line:
  "CHR 0x0A \<notin> set l \<Longrightarrow> getlines acc (l @ CHR 0x0A # rest) = (acc @ l) # getlines [] rest"
  by (induction l arbitrary: acc) auto

lemma getlines_lines:
  "\<forall>l \<in> set ls. CHR 0x0A \<notin> set l \<Longrightarrow> getlines [] (concat (map (\<lambda>l. l @ endl) ls)) = ls"
  by (induction ls) (auto simp: endl_def getlines_line)

lemma write_internal_lines:
  "write_internal m = concat (map (\<lambda>l. l @ endl) (internal_lines m))"
  by (induction m) (auto simp: write_internal_def internal_lines_def comp_def)

lemma internal_lines_plain:
  "encodable m \<Longrightarrow> \<forall>l \<in> set (internal_lines m). CHR 0x0A \<notin> set l"
  by (induction m)
     (auto simp: encodable_def internal_lines_def depender_line_def plain_line_def list_all_iff)

lemma dm_assign_snoc:
  "\<forall>k' \<in> fst ` set pre. k' < k \<Longrightarrow> dm_assign k v pre = pre @ [(k, v)]"
  by (induction pre) auto

lemma dm_assign_last:
  "\<forall>k' \<in> fst ` set pre. k' < k \<Longrightarrow> dm_assign k v (pre @ [(k, old)]) = pre @ [(k, v)]"
  by (induction pre) auto

lemma dm_find_fresh: "\<forall>k' \<in> fst ` set pre. k' < k \<Longrightarrow> dm_find pre k = None"
  by (induction pre) auto

lemma dm_find_last:
  "\<forall>k' \<in> fst ` set pre. k' < k \<Longrightarrow> dm_find (pre @ [(k, old)]) k = Some old"
  by (induction pre) auto

lemma read_line_depender:
  "depender_line k \<Longrightarrow> read_line (cur, mp) k = (Some k, dm_index k mp)"
  by (auto simp: read_line_def depender_line_def plain_line_def Let_def)

lemma read_line_dependee:
  "plain_line d \<Longrightarrow> read_line (Some k, mp) (CHR '' '' # d) = (Some k, dm_emplace_back k d mp)"
  by (auto simp: read_line_def plain_line_def Let_def)

lemma read_line_blank: "read_line s [] = s"
  by (simp add: read_line_def)

lemma read_dependees:
  "\<forall>k' \<in> fst ` set pre. k' < k \<Longrightarrow> list_all plain_line ds \<Longrightarrow>
     foldl read_line (Some k, pre @ [(k, acc)]) (map (\<lambda>d. CHR '' '' # d) ds)
       = (Some k, pre @ [(k, acc @ ds)])"
proof (induction ds arbitrary: acc)
  case Nil
  show ?case by simp
next
  case (Cons d ds)
  from Cons.prems have d: "plain_line d" and ds: "list_all plain_line ds" by simp_all
  have "read_line (Some k, pre @ [(k, acc)]) (CHR '' '' # d) = (Some k, pre @ [(k, acc @ [d])])"
    by (simp add: read_line_dependee [OF d] dm_emplace_back_def dm_find_last [OF Cons.prems(1)]
        dm_assign_last [OF Cons.prems(1)] del: map_of_append)
  then show ?case using Cons.IH [OF Cons.prems(1) ds, of "acc @ [d]"] by simp
qed

lemma read_block:
  assumes "\<forall>k' \<in> fst ` set pre. k' < k" "depender_line k" "list_all plain_line ds"
  shows "foldl read_line (cur, pre) (k # map (\<lambda>d. CHR '' '' # d) ds @ [[]])
           = (Some k, pre @ [(k, ds)])"
  using assms read_dependees [OF assms(1,3), of "[]"]
  by (simp add: read_line_depender dm_index_def dm_find_fresh dm_assign_snoc read_line_blank)

lemma read_blocks:
  "dm_ordered (pre @ m) \<Longrightarrow> encodable m \<Longrightarrow>
     snd (foldl read_line (cur, pre) (internal_lines m)) = pre @ m"
proof (induction m arbitrary: cur pre)
  case Nil
  show ?case by (simp add: internal_lines_def)
next
  case (Cons node m)
  obtain k ds where node: "node = (k, ds)" by (cases node)
  from Cons.prems(1) have less: "\<forall>k' \<in> fst ` set pre. k' < k"
    by (auto simp: dm_ordered_def node sorted_wrt_append)
  from Cons.prems(2) have enc: "depender_line k" "list_all plain_line ds" "encodable m"
    by (simp_all add: encodable_def node)
  have lines: "internal_lines (node # m) = (k # map (\<lambda>d. CHR '' '' # d) ds @ [[]]) @ internal_lines m"
    by (simp add: internal_lines_def node)
  from Cons.prems(1) have ord: "dm_ordered ((pre @ [(k, ds)]) @ m)" by (simp add: node)
  show ?case
    unfolding lines foldl_append read_block [OF less enc(1,2)]
    using Cons.IH [OF ord enc(3)] by (simp add: node)
qed

lemma read_write_internal:
  assumes "dm_ordered m" "encodable m"
  shows "read_internal (write_internal m) [] = m"
  using read_blocks [of "[]" m None] assms
  by (simp add: read_internal_def write_internal_lines getlines_lines internal_lines_plain)

text \<open>
  Claim C4, as stated, fails: the file has no escaping. A key that starts with \<open>#\<close> is
  written as a line that the reader takes for a comment, so the map read back is empty.
  A key that starts with a space is read as a dependee, a dependency that ends in a
  carriage return loses it, and a dependency with a newline is read as two lines.
\<close>

theorem round_trip_counterexample:
  "dm_ordered [(''#a.o'', [''a.c''])]
   \<and> WriteDependencies gen_plain iterate_rev [(''#a.o'', [''a.c''])]
       = Inr (''#a.o: a.c'' @ endl @ endl, ''#a.o'' @ endl @ '' a.c'' @ endl @ endl)
   \<and> CheckDependencies (fs_written (''#a.o'' @ endl @ '' a.c'' @ endl @ endl)) False
         ''depend.internal'' [] [] None = Inr (True, [], [])
   \<and> read_internal (write_internal [('' a.o'', [''a.c''])]) [] = []
   \<and> read_internal (write_internal [(''a.o'', [''a.c'' @ [CHR 0x0D]])]) [] = [(''a.o'', [''a.c''])]
   \<and> read_internal (write_internal [(''a.o'', [''a'' @ endl @ ''b''])]) []
       = [(''a.o'', [''a'']), (''b'', [])]"
  by (simp add: dm_ordered_def WriteDependencies_def write_internal_def gen_plain_def
      iterate_rev_def rule_block_def convert_dep_def endl_def CheckDependencies_def
      load_internal_def fs_written_def read_internal_def read_line_def dm_index_def
      dm_emplace_back_def Let_def)

text \<open>
  Claim C4, amended. Take a map with keys in ascending order, as \<open>std::map\<close> keeps
  them, whose lists are all non-empty, and which is encodable. Then \<open>WriteDependencies\<close>
  writes the internal file, and \<open>CheckDependencies\<close>, starting from the empty map on a
  file with that content, reads the same map back.
\<close>

theorem round_trip:
  assumes "dm_ordered dependencies"
    and "\<forall>deps \<in> snd ` set dependencies. deps \<noteq> []"
    and "encodable dependencies"
    and "FileExists fs internalDepFile"
    and "ifstream fs internalDepFile = Some (write_internal dependencies)"
  shows "(\<exists>makeDepends. WriteDependencies g iterate dependencies
            = Inr (makeDepends, write_internal dependencies))
         \<and> CheckDependencies fs Verbose internalDepFile [] [] isValidPath
            = Inr (True, dependencies, [])"
proof
  from assms(2) obtain r where "write_rules g dependencies ([], []) = Inr r"
    using write_rules_defined [of g dependencies "([], [])"] by blast
  then show "\<exists>makeDepends. WriteDependencies g iterate dependencies
               = Inr (makeDepends, write_internal dependencies)"
    by (cases r) (simp add: WriteDependencies_def)
  show "CheckDependencies fs Verbose internalDepFile [] [] isValidPath
          = Inr (True, dependencies, [])"
    using assms(4,5) read_write_internal [OF assms(1,3)]
    by (simp add: CheckDependencies_def load_internal_def)
qed

theorem round_trip_witness:
  "(\<exists>makeDepends.
      WriteDependencies gen_plain iterate_rev [(''a.o'', [''a.c'', ''b.h'']), (''b.o'', [''b.c''])]
        = Inr (makeDepends,
               ''a.o'' @ endl @ '' a.c'' @ endl @ '' b.h'' @ endl @ endl
                 @ ''b.o'' @ endl @ '' b.c'' @ endl @ endl))
   \<and> CheckDependencies
         (fs_written (''a.o'' @ endl @ '' a.c'' @ endl @ '' b.h'' @ endl @ endl
                        @ ''b.o'' @ endl @ '' b.c'' @ endl @ endl))
         False ''depend.internal'' [] [] None
       = Inr (True, [(''a.o'', [''a.c'', ''b.h'']), (''b.o'', [''b.c''])], [])"
  using round_trip [of "[(''a.o'', [''a.c'', ''b.h'']), (''b.o'', [''b.c''])]"
      "fs_written (''a.o'' @ endl @ '' a.c'' @ endl @ '' b.h'' @ endl @ endl
                     @ ''b.o'' @ endl @ '' b.c'' @ endl @ endl)"
      "''depend.internal''" gen_plain iterate_rev False None]
  by (simp add: dm_ordered_def encodable_def depender_line_def plain_line_def fs_written_def
      write_internal_def endl_def)

section \<open>The phony rules\<close>

lemma emplace_all:
  "distinct ph \<Longrightarrow>
     distinct (foldl (\<lambda>ph dep. emplace dep ph) ph deps)
     \<and> set (foldl (\<lambda>ph dep. emplace dep ph) ph deps) = set ph \<union> set deps"
  by (induction deps arbitrary: ph) (auto simp: emplace_def)

lemma write_rules_result:
  "write_rules g m (makeDepends, ph) = Inr (makeDepends', ph') \<Longrightarrow> distinct ph \<Longrightarrow>
     makeDepends' = makeDepends @ rule_blocks g m
     \<and> distinct ph' \<and> set ph' = set ph \<union> non_source_paths g m"
proof (induction m arbitrary: makeDepends ph)
  case Nil
  then show ?case by (simp add: rule_blocks_def non_source_paths_def)
next
  case (Cons node m)
  obtain target deps where node: "node = (target, deps)" by (cases node)
  from Cons.prems(1) obtain front deps' where conv: "map (convert_dep g) deps = front # deps'"
    by (cases "map (convert_dep g) deps") (auto simp: node)
  let ?ph = "foldl (\<lambda>ph dep. emplace dep ph) ph deps'"
  from Cons.prems(1) have rest:
    "write_rules g m (makeDepends @ rule_block g target front deps', ?ph) = Inr (makeDepends', ph')"
    by (simp add: node conv)
  from emplace_all [OF Cons.prems(2), of deps']
  have ph: "distinct ?ph" "set ?ph = set ph \<union> set deps'" by simp_all
  have blocks: "rule_blocks g (node # m) = rule_block g target front deps' @ rule_blocks g m"
    by (simp add: rule_blocks_def node conv)
  have paths: "non_source_paths g (node # m) = set deps' \<union> non_source_paths g m"
    by (simp add: non_source_paths_def node conv)
  from Cons.IH [OF rest ph(1)] ph(2) show ?case
    unfolding blocks paths by auto
qed

text \<open>
  Claim C7. Let the unordered set hand out each of its members once. When
  \<open>WriteDependencies\<close> returns, the text for the build tool is the rule blocks of all
  nodes followed by phony rules only: one rule for each converted path that stands
  behind the first place in the list of some node, no path twice, and no rule for any
  other path, so none for a path that occurs in first places only.
\<close>

theorem phony_coverage:
  assumes "\<forall>ph. distinct ph \<longrightarrow> distinct (iterate ph) \<and> set (iterate ph) = set ph"
    and "WriteDependencies g iterate dependencies = Inr (makeDepends, internalDepends)"
  shows "\<exists>phony. makeDepends = rule_blocks g dependencies @ concat (map phony_rule phony)
           \<and> distinct phony \<and> set phony = non_source_paths g dependencies"
proof -
  from assms(2) obtain mk ph where
    wr: "write_rules g dependencies ([], []) = Inr (mk, ph)"
    and mk: "makeDepends = mk @ concat (map phony_rule (iterate ph))"
    by (auto simp: WriteDependencies_def split: sum.splits)
  from write_rules_result [OF wr] have
    "mk = rule_blocks g dependencies" "distinct ph" "set ph = non_source_paths g dependencies"
    by simp_all
  with assms(1) mk show ?thesis by (intro exI [of _ "iterate ph"]) auto
qed

theorem phony_coverage_witness:
  "WriteDependencies gen_plain iterate_rev
      [(''a.o'', [''a.c'', ''b.h'', ''c.h'']), (''b.o'', [''b.c'', ''b.h''])]
     = Inr (''a.o: a.c '' @ [CHR 0x5C, CHR 0x0A] @ ''  b.h '' @ [CHR 0x5C, CHR 0x0A] @ ''  c.h''
              @ endl @ endl
              @ ''b.o: b.c '' @ [CHR 0x5C, CHR 0x0A] @ ''  b.h'' @ endl @ endl
              @ endl @ ''c.h:'' @ endl @ endl @ ''b.h:'' @ endl,
            write_internal [(''a.o'', [''a.c'', ''b.h'', ''c.h'']), (''b.o'', [''b.c'', ''b.h''])])
   \<and> non_source_paths gen_plain
         [(''a.o'', [''a.c'', ''b.h'', ''c.h'']), (''b.o'', [''b.c'', ''b.h''])]
       = {''b.h'', ''c.h''}"
  using phony_coverage [of iterate_rev gen_plain
      "[(''a.o'', [''a.c'', ''b.h'', ''c.h'']), (''b.o'', [''b.c'', ''b.h''])]"
      "''a.o: a.c '' @ [CHR 0x5C, CHR 0x0A] @ ''  b.h '' @ [CHR 0x5C, CHR 0x0A] @ ''  c.h''
              @ endl @ endl
              @ ''b.o: b.c '' @ [CHR 0x5C, CHR 0x0A] @ ''  b.h'' @ endl @ endl
              @ endl @ ''c.h:'' @ endl @ endl @ ''b.h:'' @ endl"
      "write_internal [(''a.o'', [''a.c'', ''b.h'', ''c.h'']), (''b.o'', [''b.c'', ''b.h''])]"]
  by (auto simp: WriteDependencies_def gen_plain_def iterate_rev_def rule_block_def
      convert_dep_def endl_def emplace_def phony_rule_def non_source_paths_def)

end
